theory Spec2Isabelle
  imports Main
begin

section \<open>JavaScript numbers and array reads\<close>

text \<open>
  The widget of \<^verbatim>\<open>src/main.ts\<close> computes with JavaScript numbers that are either
  integers (array lengths, indices, the result of \<^verbatim>\<open>indexOf\<close>) or \<^verbatim>\<open>NaN\<close> (the
  remainder by zero, arithmetic on \<^verbatim>\<open>undefined\<close>). In \<open>jsnum\<close> integers are added
  exactly, which is what a double does as long as the sum stays within \<^verbatim>\<open>2^53\<close>: the
  widget only adds 1 to an index and a remainder to an array length, and an array is
  shorter than \<^verbatim>\<open>2^32\<close>. What a double does beyond that range is modelled further
  down (\<open>jsdouble\<close>), with the rounding of the sum.
\<close>

datatype jsnum = Num int | NaN

text \<open>The operator \<^verbatim>\<open>%\<close>: the remainder takes the sign of the dividend; by zero it is NaN.\<close>

fun js_rem :: "jsnum \<Rightarrow> jsnum \<Rightarrow> jsnum" where
  "js_rem (Num a) (Num b) = (if b = 0 then NaN else Num (sgn a * (\<bar>a\<bar> mod \<bar>b\<bar>)))"
| "js_rem _ _ = NaN"

fun js_add :: "jsnum \<Rightarrow> jsnum \<Rightarrow> jsnum" where
  "js_add (Num a) (Num b) = Num (a + b)"
| "js_add _ _ = NaN"

fun js_sub :: "jsnum \<Rightarrow> jsnum \<Rightarrow> jsnum" where
  "js_sub (Num a) (Num b) = Num (a - b)"
| "js_sub _ _ = NaN"

text \<open>A field that was never assigned reads \<^verbatim>\<open>undefined\<close> (\<open>None\<close>), which arithmetic turns into NaN.\<close>

fun to_number :: "jsnum option \<Rightarrow> jsnum" where
  "to_number (Some x) = x"
| "to_number None = NaN"

text \<open>
  \<^verbatim>\<open>const wrapAround = (value, size) => ((value % size) + size) % size\<close>
\<close>

definition wrapAround :: "jsnum \<Rightarrow> jsnum \<Rightarrow> jsnum" where
  "wrapAround val sz = js_rem (js_add (js_rem val sz) sz) sz"








text \<open>
  \<^verbatim>\<open>arr[k]\<close> reads a slot only when \<open>k\<close> is an integer inside the array; for a negative
  or too large integer, for NaN and for \<^verbatim>\<open>undefined\<close> it yields \<^verbatim>\<open>undefined\<close>.
\<close>

fun js_index :: "jsnum option \<Rightarrow> nat \<Rightarrow> nat option" where
  "js_index (Some (Num k)) len = (if 0 \<le> k \<and> k < int len then Some (nat k) else None)"
| "js_index _ len = None"

definition js_get :: "'x list \<Rightarrow> jsnum option \<Rightarrow> 'x option" where
  "js_get xs k = map_option (\<lambda>i. xs ! i) (js_index k (length xs))"

section \<open>The suggestion list controller (class \<^verbatim>\<open>Suggest\<close>)\<close>

text \<open>
  A \<^verbatim>\<open>TypeError\<close> is what reading a property of \<^verbatim>\<open>undefined\<close> raises; it is the only
  exception the widget's own code can raise.
\<close>

datatype error = TypeError

datatype origin = MouseEvent | KeyboardEvent

datatype scope = WidgetScope | HostScope nat

text \<open>
  A rendered \<^verbatim>\<open>div.suggestion-item\<close>: its identity (what \<^verbatim>\<open>indexOf\<close> compares), what the
  owner's \<^verbatim>\<open>renderSuggestion\<close> put into it, and whether it carries the class
  \<^verbatim>\<open>is-selected\<close>.
\<close>

record 'c element =
  el_id :: nat
  content :: 'c
  is_selected :: bool

text \<open>The calls that leave the widget, or that a property speaks about, in the order they are made.\<close>

datatype 'a effect =
    WrapAroundCall jsnum jsnum
  | PushScopeCall
  | PopScopeCall
  | RenderCall 'a nat
  | SelectCall 'a origin
  | ScrollIntoViewCall nat
  | CreatePopperCall
  | DestroyPopperCall

text \<open>
  The fields of \<^verbatim>\<open>Suggest\<close> and \<^verbatim>\<open>TextInputSuggest\<close> in one record (one controller belongs
  to one binding layer for its whole life). A field holding \<open>None\<close> was never assigned.
  The children of \<^verbatim>\<open>containerEl\<close> are the elements of \<open>suggestions\<close>: only
  \<^verbatim>\<open>setSuggestions\<close> adds or removes them, and it stores the same elements in the field.
  \<open>popper\<close> holds whether the instance was destroyed; \<open>keymap\<close> is the host's scope
  stack, top first; \<open>next_el\<close> numbers the elements created so far.
\<close>

record ('a, 'c) widget =
  inputEl_value :: string
  cur_values :: "'a list option"
  suggestions :: "'c element list option"
  selectedItem :: "jsnum option"
  popper :: "bool option"
  suggestEl_attached :: bool
  keymap :: "scope list"
  next_el :: nat
  trace :: "'a effect list"

definition emit :: "'a effect \<Rightarrow> ('a, 'c) widget \<Rightarrow> ('a, 'c) widget" where
  "emit e s = s\<lparr>trace := trace s @ [e]\<rparr>"

text \<open>\<^verbatim>\<open>el?.addClass("is-selected")\<close> and \<^verbatim>\<open>el?.removeClass("is-selected")\<close> on the slot read before.\<close>

definition set_class :: "bool \<Rightarrow> nat option \<Rightarrow> 'c element list \<Rightarrow> 'c element list" where
  "set_class b slot els =
     (case slot of None \<Rightarrow> els | Some i \<Rightarrow> els[i := (els ! i)\<lparr>is_selected := b\<rparr>])"

definition setSelectedItem ::
  "jsnum \<Rightarrow> bool \<Rightarrow> ('a, 'c) widget \<Rightarrow> error + ('a, 'c) widget" where
  "setSelectedItem selectedIndex scrollIntoView s =
     (case suggestions s of
        None \<Rightarrow> Inl TypeError
      | Some els \<Rightarrow>
          (let len = Num (int (length els));
               normalizedIndex = wrapAround selectedIndex len;
               prevSelectedSuggestion = js_index (selectedItem s) (length els);
               selectedSuggestion = js_index (Some normalizedIndex) (length els);
               els' = set_class True selectedSuggestion
                        (set_class False prevSelectedSuggestion els);
               s' = (emit (WrapAroundCall selectedIndex len) s)
                      \<lparr>suggestions := Some els', selectedItem := Some normalizedIndex\<rparr>
           in if scrollIntoView
              then (case selectedSuggestion of
                      None \<Rightarrow> Inl TypeError
                    | Some j \<Rightarrow> Inr (emit (ScrollIntoViewCall (el_id (els' ! j))) s'))
              else Inr s'))"

text \<open>The \<^verbatim>\<open>forEach\<close> of \<^verbatim>\<open>setSuggestions\<close>: one new element per value, rendered by the owner.\<close>

fun forEach_render ::
  "('a \<Rightarrow> 'c) \<Rightarrow> 'a list \<Rightarrow> 'c element list \<Rightarrow> ('a, 'c) widget
     \<Rightarrow> 'c element list \<times> ('a, 'c) widget" where
  "forEach_render render [] suggestionEls s = (suggestionEls, s)"
| "forEach_render render (v # vs) suggestionEls s =
     (let suggestionEl = \<lparr>el_id = next_el s, content = render v, is_selected = False\<rparr>;
          s' = (emit (RenderCall v (next_el s)) s)\<lparr>next_el := Suc (next_el s)\<rparr>
      in forEach_render render vs (suggestionEls @ [suggestionEl]) s')"

definition setSuggestions ::
  "('a \<Rightarrow> 'c) \<Rightarrow> 'a list \<Rightarrow> ('a, 'c) widget \<Rightarrow> error + ('a, 'c) widget" where
  "setSuggestions render vs s =
     (case forEach_render render vs [] s of
        (suggestionEls, s1) \<Rightarrow>
          setSelectedItem (Num 0) False
            (s1\<lparr>cur_values := Some vs, suggestions := Some suggestionEls\<rparr>))"

text \<open>
  \<^verbatim>\<open>if (currentValue)\<close> tests JavaScript truthiness, which depends on the item type:
  it is the parameter \<open>truthy\<close>. The owner's \<^verbatim>\<open>selectSuggestion\<close> is the parameter
  \<open>select\<close>.
\<close>

definition useSelectedItem ::
  "('a \<Rightarrow> bool) \<Rightarrow> ('a \<Rightarrow> origin \<Rightarrow> ('a, 'c) widget \<Rightarrow> error + ('a, 'c) widget)
     \<Rightarrow> origin \<Rightarrow> ('a, 'c) widget \<Rightarrow> error + ('a, 'c) widget" where
  "useSelectedItem truthy select event s =
     (case cur_values s of
        None \<Rightarrow> Inl TypeError
      | Some vs \<Rightarrow>
          (case js_get vs (selectedItem s) of
             None \<Rightarrow> Inr s
           | Some currentValue \<Rightarrow>
               if truthy currentValue
               then select currentValue event (emit (SelectCall currentValue event) s)
               else Inr s))"

text \<open>The key handlers registered by the constructor; the flag is \<^verbatim>\<open>event.isComposing\<close>.\<close>

definition onArrowUp :: "bool \<Rightarrow> ('a, 'c) widget \<Rightarrow> error + ('a, 'c) widget" where
  "onArrowUp isComposing s =
     (if \<not> isComposing
      then setSelectedItem (js_sub (to_number (selectedItem s)) (Num 1)) True s
      else Inr s)"

definition onArrowDown :: "bool \<Rightarrow> ('a, 'c) widget \<Rightarrow> error + ('a, 'c) widget" where
  "onArrowDown isComposing s =
     (if \<not> isComposing
      then setSelectedItem (js_add (to_number (selectedItem s)) (Num 1)) True s
      else Inr s)"

definition onEnter ::
  "('a \<Rightarrow> bool) \<Rightarrow> ('a \<Rightarrow> origin \<Rightarrow> ('a, 'c) widget \<Rightarrow> error + ('a, 'c) widget)
     \<Rightarrow> bool \<Rightarrow> ('a, 'c) widget \<Rightarrow> error + ('a, 'c) widget" where
  "onEnter truthy select isComposing s =
     (if \<not> isComposing then useSelectedItem truthy select KeyboardEvent s else Inr s)"

text \<open>\<^verbatim>\<open>this.suggestions.indexOf(el)\<close>: the first position of the element, or \<open>-1\<close>.\<close>

fun indexOf :: "'c element list \<Rightarrow> nat \<Rightarrow> int" where
  "indexOf [] el = - 1"
| "indexOf (e # es) el =
     (if el_id e = el then 0
      else (let i = indexOf es el in if i < 0 then - 1 else i + 1))"

definition onSuggestionClick ::
  "('a \<Rightarrow> bool) \<Rightarrow> ('a \<Rightarrow> origin \<Rightarrow> ('a, 'c) widget \<Rightarrow> error + ('a, 'c) widget)
     \<Rightarrow> nat \<Rightarrow> ('a, 'c) widget \<Rightarrow> error + ('a, 'c) widget" where
  "onSuggestionClick truthy select el s =
     (case suggestions s of
        None \<Rightarrow> Inl TypeError
      | Some els \<Rightarrow>
          (case setSelectedItem (Num (indexOf els el)) False s of
             Inl e \<Rightarrow> Inl e
           | Inr s1 \<Rightarrow> useSelectedItem truthy select MouseEvent s1))"

definition onSuggestionMouseover :: "nat \<Rightarrow> ('a, 'c) widget \<Rightarrow> error + ('a, 'c) widget" where
  "onSuggestionMouseover el s =
     (case suggestions s of
        None \<Rightarrow> Inl TypeError
      | Some els \<Rightarrow> setSelectedItem (Num (indexOf els el)) False s)"

section \<open>The input binding layer (class \<^verbatim>\<open>TextInputSuggest\<close>)\<close>

text \<open>
  Modelled from the spec: the host's keymap (\<^verbatim>\<open>app.keymap\<close>) is not part of the
  repository. The spec calls it the single keyboard scope stack of the host, on which
  \<^verbatim>\<open>open\<close> pushes and \<^verbatim>\<open>close\<close> pops, and where an unpaired push leaves an active
  scope behind: pushing adds one entry on top, popping a scope removes one entry of it,
  the topmost, and nothing when the scope is not on the stack.
\<close>

definition pushScope :: "scope \<Rightarrow> scope list \<Rightarrow> scope list" where
  "pushScope sc stack = sc # stack"

definition popScope :: "scope \<Rightarrow> scope list \<Rightarrow> scope list" where
  "popScope sc stack = remove1 sc stack"

text \<open>
  \<^verbatim>\<open>open(container, inputEl)\<close>: push the scope, append the panel, create the positioning
  instance and store it in \<^verbatim>\<open>this.popper\<close>. (Named \<open>open_panel\<close>: \<open>open\<close> is taken in
  Isabelle.)
\<close>

definition open_panel :: "('a, 'c) widget \<Rightarrow> ('a, 'c) widget" where
  "open_panel s =
     (emit CreatePopperCall (emit PushScopeCall s))
       \<lparr>keymap := pushScope WidgetScope (keymap s),
        suggestEl_attached := True,
        popper := Some False\<rparr>"

definition close :: "('a \<Rightarrow> 'c) \<Rightarrow> ('a, 'c) widget \<Rightarrow> error + ('a, 'c) widget" where
  "close render s =
     (let s1 = (emit PopScopeCall s)\<lparr>keymap := popScope WidgetScope (keymap s)\<rparr>
      in case setSuggestions render [] s1 of
           Inl e \<Rightarrow> Inl e
         | Inr s2 \<Rightarrow>
             (let s3 = (case popper s2 of
                          None \<Rightarrow> s2
                        | Some destroyed \<Rightarrow> (emit DestroyPopperCall s2)\<lparr>popper := Some True\<rparr>)
              in Inr (s3\<lparr>suggestEl_attached := False\<rparr>)))"

text \<open>
  \<^verbatim>\<open>getSuggestions\<close> is abstract: the parameter \<open>get\<close>, whose result \<open>None\<close> is the
  falsy (absent) result that \<^verbatim>\<open>!suggestions\<close> tests for. An empty array is truthy.
\<close>

definition onInputChanged ::
  "(string \<Rightarrow> 'a list option) \<Rightarrow> ('a \<Rightarrow> 'c) \<Rightarrow> ('a, 'c) widget \<Rightarrow> error + ('a, 'c) widget" where
  "onInputChanged get render s =
     (let inputStr = inputEl_value s
      in case get inputStr of
           None \<Rightarrow> close render s
         | Some sugg \<Rightarrow>
             if length sugg > 0
             then (case setSuggestions render sugg s of
                     Inl e \<Rightarrow> Inl e
                   | Inr s1 \<Rightarrow> Inr (open_panel s1))
             else close render s)"

text \<open>
  The code keeps no open or closed flag. The panel state is read off the document:
  the panel is open when the panel element is attached.
\<close>

datatype panel_state = Closed | Open

definition panelState :: "('a, 'c) widget \<Rightarrow> panel_state" where
  "panelState s = (if suggestEl_attached s then Open else Closed)"

section \<open>The folder suggestion source (class \<^verbatim>\<open>FolderSuggest\<close>)\<close>

text \<open>
  What \<^verbatim>\<open>app.vault.getAllLoadedFiles()\<close> returns: files and folders, each with its path.
\<close>

datatype abstract_file = TFile string | TFolder string

fun path :: "abstract_file \<Rightarrow> string" where
  "path (TFile p) = p"
| "path (TFolder p) = p"

fun is_TFolder :: "abstract_file \<Rightarrow> bool" where
  "is_TFolder (TFolder p) = True"
| "is_TFolder (TFile p) = False"

text \<open>
  \<^verbatim>\<open>String.prototype.toLowerCase\<close> is a built-in of the language, not code of the
  repository, and what it does to a letter is a table of the Unicode standard. The
  source below takes it as the parameter \<open>toLowerCase\<close>, so that what is proved of
  \<^verbatim>\<open>getSuggestions\<close> holds for the built-in whatever the characters are. A string is
  the list of its characters; the source only lower-cases strings and searches one in
  another.

  \<open>toLowerCaseASCII\<close> is what the built-in does on a string of ASCII characters: the
  letters A to Z become a to z, every other ASCII character is kept. It stands in for
  the built-in in the scenarios, whose paths and inputs are ASCII.
\<close>

definition lowerCaseASCII :: "char \<Rightarrow> char" where
  "lowerCaseASCII c =
     (case map_of (zip ''ABCDEFGHIJKLMNOPQRSTUVWXYZ'' ''abcdefghijklmnopqrstuvwxyz'') c of
        None \<Rightarrow> c
      | Some l \<Rightarrow> l)"

definition toLowerCaseASCII :: "string \<Rightarrow> string" where
  "toLowerCaseASCII str = map lowerCaseASCII str"

text \<open>\<^verbatim>\<open>str.contains(t)\<close>: \<open>t\<close> occurs in \<open>str\<close> as a contiguous substring.\<close>

fun startsWith :: "string \<Rightarrow> string \<Rightarrow> bool" where
  "startsWith str [] = True"
| "startsWith [] (c # t) = False"
| "startsWith (a # str) (c # t) = (a = c \<and> startsWith str t)"

fun contains :: "string \<Rightarrow> string \<Rightarrow> bool" where
  "contains [] t = (t = [])"
| "contains (a # str) t = (startsWith (a # str) t \<or> contains str t)"

definition getSuggestions ::
  "(string \<Rightarrow> string) \<Rightarrow> abstract_file list \<Rightarrow> string \<Rightarrow> abstract_file list" where
  "getSuggestions toLowerCase abstractFiles inputStr =
     (let lowerCaseInputStr = toLowerCase inputStr;
          folders = filter (\<lambda>folder. is_TFolder folder
                              \<and> contains (toLowerCase (path folder)) lowerCaseInputStr)
                      abstractFiles
      in take 1000 folders)"

definition renderSuggestion :: "abstract_file \<Rightarrow> string" where
  "renderSuggestion file = path file"

text \<open>
  \<^verbatim>\<open>selectSuggestion(file)\<close>: write the path into the input, \<^verbatim>\<open>trigger("input")\<close>, which
  runs the widget's own listener \<^verbatim>\<open>onInputChanged\<close> before it returns, then \<^verbatim>\<open>close()\<close>.
\<close>

definition selectSuggestion ::
  "(string \<Rightarrow> string) \<Rightarrow> abstract_file list \<Rightarrow> abstract_file \<Rightarrow> origin
     \<Rightarrow> (abstract_file, string) widget \<Rightarrow> error + (abstract_file, string) widget" where
  "selectSuggestion toLowerCase abstractFiles file event s =
     (case onInputChanged (\<lambda>inputStr. Some (getSuggestions toLowerCase abstractFiles inputStr))
             renderSuggestion (s\<lparr>inputEl_value := path file\<rparr>) of
        Inl e \<Rightarrow> Inl e
      | Inr s1 \<Rightarrow> close renderSuggestion s1)"

section \<open>Events\<close>

text \<open>
  The state after the constructor: nothing assigned but the input element and the
  scope, the panel not in the document; the host's stack is whatever it was.
\<close>

definition new_widget :: "string \<Rightarrow> scope list \<Rightarrow> ('a, 'c) widget" where
  "new_widget text stack =
     \<lparr>inputEl_value = text, cur_values = None, suggestions = None, selectedItem = None,
      popper = None, suggestEl_attached = False, keymap = stack, next_el = 0, trace = []\<rparr>"

datatype event =
    InputEvent string
  | FocusEvent
  | BlurEvent
  | EscapeKey
  | ArrowUpKey bool
  | ArrowDownKey bool
  | EnterKey bool
  | ClickOn nat
  | MouseMoveOn nat

text \<open>
  Modelled from the spec: the host consults the scope on top of its stack for a key;
  a mouse event reaches a delegated handler only from an element inside the container.
\<close>

definition scope_active :: "('a, 'c) widget \<Rightarrow> bool" where
  "scope_active s = (case keymap s of [] \<Rightarrow> False | sc # rest \<Rightarrow> sc = WidgetScope)"

definition in_container :: "nat \<Rightarrow> ('a, 'c) widget \<Rightarrow> bool" where
  "in_container el s =
     (case suggestions s of None \<Rightarrow> False | Some els \<Rightarrow> el \<in> set (map el_id els))"

text \<open>A folder object is truthy, like every object.\<close>

definition truthy_folder :: "abstract_file \<Rightarrow> bool" where
  "truthy_folder file = True"

text \<open>The empty string is the one falsy string.\<close>

definition truthy_string :: "string \<Rightarrow> bool" where
  "truthy_string str = (str \<noteq> [])"

fun handle ::
  "(string \<Rightarrow> string) \<Rightarrow> abstract_file list \<Rightarrow> event \<Rightarrow> (abstract_file, string) widget
     \<Rightarrow> error + (abstract_file, string) widget" where
  "handle toLowerCase files (InputEvent text) s =
     onInputChanged (\<lambda>inputStr. Some (getSuggestions toLowerCase files inputStr)) renderSuggestion
       (s\<lparr>inputEl_value := text\<rparr>)"
| "handle toLowerCase files FocusEvent s =
     onInputChanged (\<lambda>inputStr. Some (getSuggestions toLowerCase files inputStr)) renderSuggestion s"
| "handle toLowerCase files BlurEvent s = close renderSuggestion s"
| "handle toLowerCase files EscapeKey s =
     (if scope_active s then close renderSuggestion s else Inr s)"
| "handle toLowerCase files (ArrowUpKey isComposing) s =
     (if scope_active s then onArrowUp isComposing s else Inr s)"
| "handle toLowerCase files (ArrowDownKey isComposing) s =
     (if scope_active s then onArrowDown isComposing s else Inr s)"
| "handle toLowerCase files (EnterKey isComposing) s =
     (if scope_active s
      then onEnter truthy_folder (selectSuggestion toLowerCase files) isComposing s
      else Inr s)"
| "handle toLowerCase files (ClickOn el) s =
     (if in_container el s
      then onSuggestionClick truthy_folder (selectSuggestion toLowerCase files) el s
      else Inr s)"
| "handle toLowerCase files (MouseMoveOn el) s =
     (if in_container el s then onSuggestionMouseover el s else Inr s)"

fun run ::
  "(string \<Rightarrow> string) \<Rightarrow> abstract_file list \<Rightarrow> event list \<Rightarrow> (abstract_file, string) widget
     \<Rightarrow> error + (abstract_file, string) widget" where
  "run toLowerCase files [] s = Inr s"
| "run toLowerCase files (ev # evs) s =
     (case handle toLowerCase files ev s of Inl e \<Rightarrow> Inl e | Inr s' \<Rightarrow> run toLowerCase files evs s')"

text \<open>Running one handler \<open>n\<close> times, stopping at the first exception.\<close>

fun repeat_step :: "nat \<Rightarrow> ('s \<Rightarrow> error + 's) \<Rightarrow> 's \<Rightarrow> error + 's" where
  "repeat_step 0 f s = Inr s"
| "repeat_step (Suc n) f s =
     (case f s of Inl e \<Rightarrow> Inl e | Inr s' \<Rightarrow> repeat_step n f s')"

text \<open>
  What can be observed of the widget from outside: the host's scope stack, the
  rendered elements, the positioning instance and whether the panel is in the document.
\<close>

definition observable ::
  "('a, 'c) widget \<Rightarrow> scope list \<times> 'c element list option \<times> bool option \<times> bool" where
  "observable s = (keymap s, suggestions s, popper s, suggestEl_attached s)"

text \<open>The sizes that the calls of \<^verbatim>\<open>wrapAround\<close> in a trace were given.\<close>

fun wrap_sizes :: "'a effect list \<Rightarrow> jsnum list" where
  "wrap_sizes [] = []"
| "wrap_sizes (WrapAroundCall v n # es) = n # wrap_sizes es"
| "wrap_sizes (e # es) = wrap_sizes es"

fun select_calls :: "'a effect list \<Rightarrow> ('a \<times> origin) list" where
  "select_calls [] = []"
| "select_calls (SelectCall v ev # es) = (v, ev) # select_calls es"
| "select_calls (e # es) = select_calls es"

section \<open>Index wrapping\<close>

lemma trunc_rem_cong:
  fixes v n :: int
  assumes "0 < n"
  shows "(sgn v * (\<bar>v\<bar> mod n)) mod n = v mod n"
proof (cases "0 \<le> v")
  case True
  then show ?thesis
    by (cases "v = 0") (simp_all add: sgn_if)
next
  case False
  then have neg: "v < 0" by simp
  have "(- ((- v) mod n)) mod n = (- (- v)) mod n"
    by (rule mod_minus_cong) simp
  with neg show ?thesis
    by (simp add: sgn_if)
qed

lemma trunc_rem_bounds:
  fixes v n :: int
  assumes "0 < n"
  shows "- n < sgn v * (\<bar>v\<bar> mod n)" and "sgn v * (\<bar>v\<bar> mod n) < n"
proof -
  have a: "0 \<le> \<bar>v\<bar> mod n" and b: "\<bar>v\<bar> mod n < n"
    using assms by simp_all
  show "- n < sgn v * (\<bar>v\<bar> mod n)"
    using a b by (cases "v < 0"; cases "v = 0") (simp_all add: sgn_if)
  show "sgn v * (\<bar>v\<bar> mod n) < n"
    using a b by (cases "v < 0"; cases "v = 0") (simp_all add: sgn_if)
qed

lemma wrapAround_pos:
  fixes v n :: int
  assumes "0 < n"
  shows "wrapAround (Num v) (Num n) = Num (v mod n)"
proof -
  let ?r = "sgn v * (\<bar>v\<bar> mod n)"
  have lo: "- n < ?r" and hi: "?r < n"
    using trunc_rem_bounds [OF assms] by simp_all
  from lo have pos: "0 < ?r + n" by simp
  have "(?r + n) mod n = ?r mod n" by simp
  also have "\<dots> = v mod n" by (rule trunc_rem_cong [OF assms])
  finally have m: "(?r + n) mod n = v mod n" .
  from assms have "wrapAround (Num v) (Num n) = js_rem (Num (?r + n)) (Num n)"
    by (simp add: wrapAround_def)
  also from assms pos have "\<dots> = Num ((?r + n) mod n)"
    by (simp add: sgn_if)
  finally show ?thesis using m by simp
qed

lemma wrapAround_zero_size: "wrapAround v (Num 0) = NaN"
  by (cases v) (simp_all add: wrapAround_def)









section \<open>What the controller's operations compute\<close>

lemma forEach_render_eq:
  "forEach_render render vs acc s =
     (acc @ map (\<lambda>(i, v). \<lparr>el_id = i, content = render v, is_selected = False\<rparr>)
              (enumerate (next_el s) vs),
      s\<lparr>next_el := next_el s + length vs,
        trace := trace s @ map (\<lambda>(i, v). RenderCall v i) (enumerate (next_el s) vs)\<rparr>)"
proof (induction vs arbitrary: acc s)
  case Nil
  show ?case by simp
next
  case (Cons v vs)
  show ?case
    by (simp add: Cons.IH emit_def Let_def)
qed

lemma set_class_None: "set_class b None els = els"
  by (simp add: set_class_def)

lemma length_set_class: "length (set_class b slot els) = length els"
  by (simp add: set_class_def split: option.splits)

lemma js_index_zero: "js_index k 0 = None"
  by (cases "(k, 0::nat)" rule: js_index.cases) auto

lemma set_class_False_fresh:
  assumes "list_all (\<lambda>e. \<not> is_selected e) els"
  shows "set_class False slot els = els"
proof (cases slot)
  case None
  then show ?thesis by (simp add: set_class_def)
next
  case (Some i)
  show ?thesis
  proof (cases "i < length els")
    case True
    with assms have "\<not> is_selected (els ! i)"
      by (simp add: list_all_length)
    then have "(els ! i)\<lparr>is_selected := False\<rparr> = els ! i" by simp
    with Some show ?thesis by (simp add: set_class_def)
  next
    case False
    with Some show ?thesis by (simp add: set_class_def list_update_beyond)
  qed
qed

lemma setSelectedItem_no_scroll:
  assumes "suggestions s = Some els"
  shows "setSelectedItem idx False s =
     Inr (s\<lparr>suggestions :=
              Some (set_class True (js_index (Some (wrapAround idx (Num (int (length els))))) (length els))
                     (set_class False (js_index (selectedItem s) (length els)) els)),
            selectedItem := Some (wrapAround idx (Num (int (length els)))),
            trace := trace s @ [WrapAroundCall idx (Num (int (length els)))]\<rparr>)"
  using assms by (simp add: setSelectedItem_def emit_def Let_def)

lemma setSuggestions_eq:
  "setSuggestions render vs s =
     Inr (s\<lparr>cur_values := Some vs,
            suggestions :=
              Some (set_class True (js_index (Some (wrapAround (Num 0) (Num (int (length vs))))) (length vs))
                     (map (\<lambda>(i, v). \<lparr>el_id = i, content = render v, is_selected = False\<rparr>)
                        (enumerate (next_el s) vs))),
            selectedItem := Some (wrapAround (Num 0) (Num (int (length vs)))),
            next_el := next_el s + length vs,
            trace := trace s @ map (\<lambda>(i, v). RenderCall v i) (enumerate (next_el s) vs)
                       @ [WrapAroundCall (Num 0) (Num (int (length vs)))]\<rparr>)"
proof -
  let ?els = "map (\<lambda>(i, v). \<lparr>el_id = i, content = render v, is_selected = False\<rparr>)
                (enumerate (next_el s) vs)"
  have fresh: "list_all (\<lambda>e. \<not> is_selected e) ?els"
    by (simp add: list_all_iff split_beta)
  have len: "length ?els = length vs" by simp
  show ?thesis
    unfolding setSuggestions_def forEach_render_eq
    by (simp add: setSelectedItem_no_scroll [where els = ?els] set_class_False_fresh [OF fresh])
qed

lemma close_eq:
  "close render s =
     Inr (s\<lparr>cur_values := Some [], suggestions := Some [], selectedItem := Some NaN,
            popper := map_option (\<lambda>destroyed. True) (popper s),
            suggestEl_attached := False,
            keymap := popScope WidgetScope (keymap s),
            trace := trace s @ [PopScopeCall, WrapAroundCall (Num 0) (Num 0)]
                       @ (case popper s of None \<Rightarrow> [] | Some destroyed \<Rightarrow> [DestroyPopperCall])\<rparr>)"
  by (cases "popper s")
     (simp_all add: close_def setSuggestions_eq emit_def Let_def wrapAround_zero_size
        js_index_zero set_class_None)

lemma enumerate_map_fst: "map fst (enumerate n xs) = [n ..< n + length xs]"
  by (simp add: enumerate_eq_zip)

lemma enumerate_map_snd: "map snd (enumerate n xs) = xs"
  by (simp add: enumerate_eq_zip)

lemma wrapAround_zero_index:
  assumes "0 < n"
  shows "wrapAround (Num 0) (Num (int n)) = Num 0"
  using assms by (simp add: wrapAround_def)

lemma fresh_el_id:
  "el_id \<circ> (\<lambda>(i, v). \<lparr>el_id = i, content = render v, is_selected = False\<rparr>) = fst"
  by (simp add: fun_eq_iff)

lemma fresh_content:
  "content \<circ> (\<lambda>(i, v). \<lparr>el_id = i, content = render v, is_selected = False\<rparr>) = render \<circ> snd"
  by (simp add: fun_eq_iff)

lemma fresh_is_selected:
  "is_selected \<circ> (\<lambda>(i, v). \<lparr>el_id = i, content = render v, is_selected = False\<rparr>) = (\<lambda>x. False)"
  by (simp add: fun_eq_iff)

text \<open>
  C4. For a non-empty list of items, \<open>setSuggestions\<close> replaces the rendered elements
  by one new element per item, in order, each rendered by the owner, resets the selection
  index to 0 without scrolling anything into view (the trace gains the render calls and
  one index wrap, nothing else), and marks element 0 and no other as selected.
\<close>

theorem setSuggestions_nonempty:
  assumes "items \<noteq> []"
  shows "\<exists>s' els. setSuggestions render items s = Inr s'
           \<and> cur_values s' = Some items
           \<and> suggestions s' = Some els
           \<and> map el_id els = [next_el s ..< next_el s + length items]
           \<and> map content els = map render items
           \<and> map is_selected els = True # replicate (length items - 1) False
           \<and> selectedItem s' = Some (Num 0)
           \<and> trace s' = trace s @ map (\<lambda>(i, v). RenderCall v i) (enumerate (next_el s) items)
                            @ [WrapAroundCall (Num 0) (Num (int (length items)))]"
proof -
  let ?fresh = "map (\<lambda>(i, v). \<lparr>el_id = i, content = render v, is_selected = False\<rparr>)
                  (enumerate (next_el s) items)"
  let ?els = "?fresh[0 := (?fresh ! 0)\<lparr>is_selected := True\<rparr>]"
  from assms have pos: "0 < length items" by simp
  have w: "wrapAround (Num 0) (Num (int (length items))) = Num 0"
    by (rule wrapAround_zero_index [OF pos])
  have marked: "set_class True (js_index (Some (Num 0)) (length items)) ?fresh = ?els"
    using pos by (simp add: set_class_def)
  have ids: "map el_id ?els = [next_el s ..< next_el s + length items]"
  proof -
    have "map el_id ?els = (map el_id ?fresh)[0 := el_id ((?fresh ! 0)\<lparr>is_selected := True\<rparr>)]"
      by (simp only: map_update)
    also have "\<dots> = map el_id ?fresh"
      using pos by (simp add: list_update_same_conv)
    also have "\<dots> = map fst (enumerate (next_el s) items)"
      by (simp add: fresh_el_id)
    finally show ?thesis by (simp only: enumerate_map_fst)
  qed
  have cont: "map content ?els = map render items"
  proof -
    have "map content ?els = (map content ?fresh)[0 := content ((?fresh ! 0)\<lparr>is_selected := True\<rparr>)]"
      by (simp only: map_update)
    also have "\<dots> = map content ?fresh"
      using pos by (simp add: list_update_same_conv)
    also have "\<dots> = map (render \<circ> snd) (enumerate (next_el s) items)"
      by (simp add: fresh_content)
    also have "\<dots> = map render (map snd (enumerate (next_el s) items))"
      by (simp only: map_map)
    finally show ?thesis by (simp only: enumerate_map_snd)
  qed
  have sel: "map is_selected ?els = True # replicate (length items - 1) False"
  proof -
    have "map is_selected ?fresh = replicate (length items) False"
      by (simp add: fresh_is_selected map_replicate_const)
    moreover have "map is_selected ?els = (map is_selected ?fresh)[0 := True]"
      by (simp add: map_update)
    ultimately have "map is_selected ?els = (replicate (length items) False)[0 := True]"
      by simp
    with pos show ?thesis
      by (cases "length items") simp_all
  qed
  have "setSuggestions render items s =
          Inr (s\<lparr>cur_values := Some items, suggestions := Some ?els,
                 selectedItem := Some (Num 0), next_el := next_el s + length items,
                 trace := trace s @ map (\<lambda>(i, v). RenderCall v i) (enumerate (next_el s) items)
                            @ [WrapAroundCall (Num 0) (Num (int (length items)))]\<rparr>)"
    by (simp only: setSuggestions_eq w marked)
  with ids cont sel show ?thesis by simp
qed

theorem setSuggestions_nonempty_witness:
  "[TFolder ''Journal'', TFolder ''Notes''] \<noteq> []
   \<and> (\<exists>s' els. setSuggestions renderSuggestion [TFolder ''Journal'', TFolder ''Notes'']
                    (new_widget [] []) = Inr s'
          \<and> suggestions s' = Some els
          \<and> map content els = [''Journal'', ''Notes'']
          \<and> map is_selected els = [True, False]
          \<and> selectedItem s' = Some (Num 0))"
  using setSuggestions_nonempty
          [of "[TFolder ''Journal'', TFolder ''Notes'']" renderSuggestion "new_widget [] []"]
  by (auto simp: renderSuggestion_def)

lemma setSelectedItem_in_range:
  assumes "suggestions s = Some els" and "els \<noteq> []"
  shows "\<exists>s' els'. setSelectedItem (Num idx) scroll s = Inr s'
           \<and> suggestions s' = Some els' \<and> length els' = length els
           \<and> selectedItem s' = Some (Num (idx mod int (length els)))"
proof -
  from assms(2) have pos: "0 < int (length els)" by simp
  have w: "wrapAround (Num idx) (Num (int (length els))) = Num (idx mod int (length els))"
    by (rule wrapAround_pos [OF pos])
  have r: "0 \<le> idx mod int (length els)" "idx mod int (length els) < int (length els)"
    using pos by simp_all
  then have slot: "js_index (Some (Num (idx mod int (length els)))) (length els)
                 = Some (nat (idx mod int (length els)))"
    by simp
  show ?thesis
    using assms(1) r
    by (cases scroll)
       (simp_all add: setSelectedItem_def Let_def emit_def w length_set_class)
qed

lemma onArrowDown_step:
  assumes "suggestions s = Some els" and "els \<noteq> []" and "selectedItem s = Some (Num i)"
  shows "\<exists>s' els'. onArrowDown False s = Inr s'
           \<and> suggestions s' = Some els' \<and> length els' = length els
           \<and> selectedItem s' = Some (Num ((i + 1) mod int (length els)))"
  using setSelectedItem_in_range [OF assms(1,2), of "i + 1" True] assms(3)
  by (simp add: onArrowDown_def)

lemma onArrowDown_repeat:
  assumes "suggestions s = Some els" and "els \<noteq> []" and "selectedItem s = Some (Num i)"
    and "0 \<le> i" and "i < int (length els)"
  shows "\<exists>s' els'. repeat_step k (onArrowDown False) s = Inr s'
           \<and> suggestions s' = Some els' \<and> length els' = length els
           \<and> selectedItem s' = Some (Num ((i + int k) mod int (length els)))"
  using assms
proof (induction k arbitrary: s els i)
  case 0
  then show ?case by simp
next
  case (Suc k)
  let ?n = "int (length els)"
  from onArrowDown_step [OF Suc.prems(1,2,3)]
  obtain s1 els1 where step: "onArrowDown False s = Inr s1"
    and s1: "suggestions s1 = Some els1" "length els1 = length els"
      "selectedItem s1 = Some (Num ((i + 1) mod ?n))"
    by blast
  from Suc.prems(2) s1(2) have ne: "els1 \<noteq> []" by auto
  from Suc.prems(2) have pos: "0 < ?n" by simp
  have lo: "0 \<le> (i + 1) mod ?n" and hi: "(i + 1) mod ?n < int (length els1)"
    using pos s1(2) by simp_all
  from Suc.IH [OF s1(1) ne s1(3) lo hi]
  obtain s' els' where rest: "repeat_step k (onArrowDown False) s1 = Inr s'"
    and s': "suggestions s' = Some els'" "length els' = length els1"
      "selectedItem s' = Some (Num (((i + 1) mod ?n + int k) mod int (length els1)))"
    by blast
  have "((i + 1) mod ?n + int k) mod ?n = ((i + 1) + int k) mod ?n"
    by (rule mod_add_left_eq)
  also have "(i + 1) + int k = i + int (Suc k)" by simp
  finally have "((i + 1) mod ?n + int k) mod ?n = (i + int (Suc k)) mod ?n" .
  with step rest s' s1(2) show ?case by simp
qed

lemma onArrowDown_marks:
  assumes "suggestions s = Some els" and "els \<noteq> []" and "selectedItem s = Some (Num i)"
    and "0 \<le> i" and "i < int (length els)"
  shows "\<exists>s1 els1. onArrowDown False s = Inr s1
           \<and> selectedItem s1 = Some (Num ((i + 1) mod int (length els)))
           \<and> suggestions s1 = Some els1 \<and> length els1 = length els
           \<and> is_selected (els1 ! nat ((i + 1) mod int (length els)))
           \<and> ((i + 1) mod int (length els) \<noteq> i \<longrightarrow> \<not> is_selected (els1 ! nat i))"
proof -
  let ?n = "int (length els)"
  let ?j = "(i + 1) mod ?n"
  from assms(2) have pos: "0 < ?n" by simp
  have w: "wrapAround (Num (i + 1)) (Num ?n) = Num ?j"
    by (rule wrapAround_pos [OF pos])
  have r: "0 \<le> ?j" "?j < ?n"
    using pos by simp_all
  from r have jn: "nat ?j < length els" by simp
  from assms(4,5) have inn: "nat i < length els" by simp
  let ?els0 = "els[nat i := (els ! nat i)\<lparr>is_selected := False\<rparr>]"
  let ?els1 = "?els0[nat ?j := (?els0 ! nat ?j)\<lparr>is_selected := True\<rparr>]"
  have step: "onArrowDown False s =
      Inr (s\<lparr>suggestions := Some ?els1, selectedItem := Some (Num ?j),
             trace := trace s @ [WrapAroundCall (Num (i + 1)) (Num ?n),
                                 ScrollIntoViewCall (el_id (?els1 ! nat ?j))]\<rparr>)"
    using assms(1,3,4,5) r
    by (simp add: onArrowDown_def setSelectedItem_def Let_def emit_def w set_class_def)
  have marked: "is_selected (?els1 ! nat ?j)"
    using jn by simp
  have unmarked: "\<not> is_selected (?els1 ! nat i)" if "?j \<noteq> i"
  proof -
    from that r assms(4) have "nat ?j \<noteq> nat i" by simp
    with inn show ?thesis by simp
  qed
  from step marked unmarked show ?thesis by simp
qed

text \<open>
  C5. On a non-empty list of length \<open>len\<close>, \<open>setSelectedItem(idx, _)\<close> returns
  normally for every integer \<open>idx\<close>, with or without scrolling, and leaves the selected
  index at \<open>wrapAround(idx, len)\<close>, which lies in \<open>[0, len)\<close>. From a selected
  index \<open>i\<close> in range, the ArrowDown step is \<open>setSelectedItem(i + 1, true)\<close>: it
  returns normally, moves the selection to \<open>(i + 1) mod len\<close>, marks that element and
  unmarks the one at \<open>i\<close> when it is another; \<open>k\<close> steps lead to
  \<open>(i + k) mod len\<close>, and \<open>len\<close> steps back to \<open>i\<close>.
\<close>

theorem setSelectedItem_wraps:
  assumes "suggestions s = Some els" and "els \<noteq> []"
  shows "(\<exists>s' r. setSelectedItem (Num idx) scroll s = Inr s'
            \<and> selectedItem s' = Some (wrapAround (Num idx) (Num (int (length els))))
            \<and> selectedItem s' = Some (Num r) \<and> 0 \<le> r \<and> r < int (length els))
       \<and> (selectedItem s = Some (Num i) \<and> 0 \<le> i \<and> i < int (length els) \<longrightarrow>
            onArrowDown False s = setSelectedItem (Num (i + 1)) True s
          \<and> (\<exists>s1 els1. onArrowDown False s = Inr s1
                \<and> selectedItem s1 = Some (Num ((i + 1) mod int (length els)))
                \<and> suggestions s1 = Some els1 \<and> length els1 = length els
                \<and> is_selected (els1 ! nat ((i + 1) mod int (length els)))
                \<and> ((i + 1) mod int (length els) \<noteq> i \<longrightarrow> \<not> is_selected (els1 ! nat i)))
          \<and> (\<forall>k. \<exists>s'. repeat_step k (onArrowDown False) s = Inr s'
                \<and> selectedItem s' = Some (Num ((i + int k) mod int (length els))))
          \<and> (\<exists>s'. repeat_step (length els) (onArrowDown False) s = Inr s'
                \<and> selectedItem s' = Some (Num i)))"
proof (intro conjI impI allI)
  from assms(2) have pos: "0 < int (length els)" by simp
  have w: "wrapAround (Num idx) (Num (int (length els))) = Num (idx mod int (length els))"
    by (rule wrapAround_pos [OF pos])
  have r: "0 \<le> idx mod int (length els)" "idx mod int (length els) < int (length els)"
    using pos by simp_all
  from setSelectedItem_in_range [OF assms, of idx scroll] w r
  show "\<exists>s' r. setSelectedItem (Num idx) scroll s = Inr s'
            \<and> selectedItem s' = Some (wrapAround (Num idx) (Num (int (length els))))
            \<and> selectedItem s' = Some (Num r) \<and> 0 \<le> r \<and> r < int (length els)"
    by auto
next
  assume sel: "selectedItem s = Some (Num i) \<and> 0 \<le> i \<and> i < int (length els)"
  then show "onArrowDown False s = setSelectedItem (Num (i + 1)) True s"
    by (simp add: onArrowDown_def)
next
  assume sel: "selectedItem s = Some (Num i) \<and> 0 \<le> i \<and> i < int (length els)"
  with onArrowDown_marks [OF assms, of i]
  show "\<exists>s1 els1. onArrowDown False s = Inr s1
                \<and> selectedItem s1 = Some (Num ((i + 1) mod int (length els)))
                \<and> suggestions s1 = Some els1 \<and> length els1 = length els
                \<and> is_selected (els1 ! nat ((i + 1) mod int (length els)))
                \<and> ((i + 1) mod int (length els) \<noteq> i \<longrightarrow> \<not> is_selected (els1 ! nat i))"
    by blast
next
  fix k
  assume sel: "selectedItem s = Some (Num i) \<and> 0 \<le> i \<and> i < int (length els)"
  with onArrowDown_repeat [OF assms, of i k]
  show "\<exists>s'. repeat_step k (onArrowDown False) s = Inr s'
                \<and> selectedItem s' = Some (Num ((i + int k) mod int (length els)))"
    by blast
next
  assume sel: "selectedItem s = Some (Num i) \<and> 0 \<le> i \<and> i < int (length els)"
  then have "(i + int (length els)) mod int (length els) = i" by simp
  with onArrowDown_repeat [OF assms, of i "length els"] sel
  show "\<exists>s'. repeat_step (length els) (onArrowDown False) s = Inr s'
               \<and> selectedItem s' = Some (Num i)"
    by auto
qed

theorem setSelectedItem_wraps_witness:
  "suggestions ((new_widget [] [] :: (abstract_file, string) widget)
      \<lparr>suggestions := Some [\<lparr>el_id = 0, content = ''a'', is_selected = False\<rparr>,
                            \<lparr>el_id = 1, content = ''b'', is_selected = True\<rparr>,
                            \<lparr>el_id = 2, content = ''c'', is_selected = False\<rparr>],
       selectedItem := Some (Num 1)\<rparr>)
     = Some [\<lparr>el_id = 0, content = ''a'', is_selected = False\<rparr>,
             \<lparr>el_id = 1, content = ''b'', is_selected = True\<rparr>,
             \<lparr>el_id = 2, content = ''c'', is_selected = False\<rparr>]
   \<and> (\<exists>s'. setSelectedItem (Num (- 1)) True
               ((new_widget [] [] :: (abstract_file, string) widget)
                  \<lparr>suggestions := Some [\<lparr>el_id = 0, content = ''a'', is_selected = False\<rparr>,
                                        \<lparr>el_id = 1, content = ''b'', is_selected = True\<rparr>,
                                        \<lparr>el_id = 2, content = ''c'', is_selected = False\<rparr>],
                   selectedItem := Some (Num 1)\<rparr>) = Inr s'
          \<and> selectedItem s' = Some (Num 2))
   \<and> (\<exists>s1 els1. onArrowDown False
               ((new_widget [] [] :: (abstract_file, string) widget)
                  \<lparr>suggestions := Some [\<lparr>el_id = 0, content = ''a'', is_selected = False\<rparr>,
                                        \<lparr>el_id = 1, content = ''b'', is_selected = True\<rparr>,
                                        \<lparr>el_id = 2, content = ''c'', is_selected = False\<rparr>],
                   selectedItem := Some (Num 1)\<rparr>) = Inr s1
          \<and> selectedItem s1 = Some (Num 2) \<and> suggestions s1 = Some els1
          \<and> is_selected (els1 ! 2) \<and> \<not> is_selected (els1 ! 1))
   \<and> (\<exists>s'. repeat_step 2 (onArrowDown False)
               ((new_widget [] [] :: (abstract_file, string) widget)
                  \<lparr>suggestions := Some [\<lparr>el_id = 0, content = ''a'', is_selected = False\<rparr>,
                                        \<lparr>el_id = 1, content = ''b'', is_selected = True\<rparr>,
                                        \<lparr>el_id = 2, content = ''c'', is_selected = False\<rparr>],
                   selectedItem := Some (Num 1)\<rparr>) = Inr s'
          \<and> selectedItem s' = Some (Num 0))
   \<and> (\<exists>s'. repeat_step 3 (onArrowDown False)
               ((new_widget [] [] :: (abstract_file, string) widget)
                  \<lparr>suggestions := Some [\<lparr>el_id = 0, content = ''a'', is_selected = False\<rparr>,
                                        \<lparr>el_id = 1, content = ''b'', is_selected = True\<rparr>,
                                        \<lparr>el_id = 2, content = ''c'', is_selected = False\<rparr>],
                   selectedItem := Some (Num 1)\<rparr>) = Inr s'
          \<and> selectedItem s' = Some (Num 1))"
  (is "suggestions ?s = Some ?els \<and> ?wrapped \<and> ?stepped \<and> ?twice \<and> ?cycled")
proof -
  have h1: "suggestions ?s = Some ?els" by simp
  have h2: "?els \<noteq> []" by simp
  have h3: "selectedItem ?s = Some (Num 1) \<and> (0::int) \<le> 1 \<and> 1 < int (length ?els)"
    by simp
  have len: "length ?els = 3" by simp
  have w: "wrapAround (Num (- 1)) (Num (int (length ?els))) = Num 2"
    by (simp add: wrapAround_def)
  have m1: "((1::int) + 1) mod int (length ?els) = 2" by simp
  have m2: "((1::int) + int 2) mod int (length ?els) = 0" by simp
  have n2: "nat 2 = 2" "nat 1 = 1" "(2::int) \<noteq> 1" by simp_all
  note inst = setSelectedItem_wraps [OF h1 h2, of "- 1" True 1]
  from inst w have a: ?wrapped by metis
  from inst h3 have "\<exists>s1 els1. onArrowDown False ?s = Inr s1
      \<and> selectedItem s1 = Some (Num ((1 + 1) mod int (length ?els)))
      \<and> suggestions s1 = Some els1 \<and> length els1 = length ?els
      \<and> is_selected (els1 ! nat ((1 + 1) mod int (length ?els)))
      \<and> ((1 + 1) mod int (length ?els) \<noteq> 1 \<longrightarrow> \<not> is_selected (els1 ! nat 1))"
    by blast
  with n2(3) have b: ?stepped
    unfolding m1 n2(1,2) by blast
  from inst h3 have "\<exists>s'. repeat_step 2 (onArrowDown False) ?s = Inr s'
      \<and> selectedItem s' = Some (Num ((1 + int 2) mod int (length ?els)))"
    by blast
  then have c: ?twice by (simp only: m2)
  from inst h3 have "\<exists>s'. repeat_step (length ?els) (onArrowDown False) ?s = Inr s'
                        \<and> selectedItem s' = Some (Num 1)"
    by blast
  then have d: ?cycled by (simp only: len)
  from h1 a b c d show ?thesis by blast
qed

lemma wrap_sizes_append: "wrap_sizes (xs @ ys) = wrap_sizes xs @ wrap_sizes ys"
  by (induction xs rule: wrap_sizes.induct) simp_all

lemma wrap_sizes_render:
  "wrap_sizes (map (\<lambda>(i, v). RenderCall v i) ps) = []"
  by (induction ps) (simp_all add: split_beta)

lemma close_total:
  "\<exists>s'. close render s = Inr s' \<and> panelState s' = Closed \<and> suggestions s' = Some []
         \<and> cur_values s' = Some [] \<and> inputEl_value s' = inputEl_value s"
  by (simp add: close_eq panelState_def)

text \<open>
  C2, as the code has it. Every call of \<open>wrapAround\<close> is given the current number of
  rendered elements as its size. \<open>setSuggestions\<close> makes exactly one such call, with
  the number of items, so with size 0 for the empty list; \<open>close\<close> always passes the
  empty list, so every \<open>close\<close> calls \<open>wrapAround(0, 0)\<close>. That call raises nothing:
  it yields NaN, the selection index becomes NaN and no element is marked. On a
  non-empty list the size is strictly positive.
\<close>

theorem wrapAround_sizes:
  "(\<exists>s'. setSuggestions render items s = Inr s'
          \<and> wrap_sizes (trace s') = wrap_sizes (trace s) @ [Num (int (length items))])
   \<and> (\<exists>s'. close render s = Inr s'
          \<and> wrap_sizes (trace s') = wrap_sizes (trace s) @ [Num 0]
          \<and> selectedItem s' = Some NaN \<and> suggestions s' = Some [])
   \<and> wrapAround (Num 0) (Num 0) = NaN
   \<and> (suggestions s = Some els \<and> els \<noteq> [] \<longrightarrow>
        (\<exists>s'. setSelectedItem (Num idx) scroll s = Inr s'
           \<and> wrap_sizes (trace s') = wrap_sizes (trace s) @ [Num (int (length els))]
           \<and> 0 < int (length els)))"
proof (intro conjI impI)
  show "\<exists>s'. setSuggestions render items s = Inr s'
          \<and> wrap_sizes (trace s') = wrap_sizes (trace s) @ [Num (int (length items))]"
    by (simp add: setSuggestions_eq wrap_sizes_append wrap_sizes_render)
next
  show "\<exists>s'. close render s = Inr s'
          \<and> wrap_sizes (trace s') = wrap_sizes (trace s) @ [Num 0]
          \<and> selectedItem s' = Some NaN \<and> suggestions s' = Some []"
    by (cases "popper s") (simp_all add: close_eq wrap_sizes_append)
next
  show "wrapAround (Num 0) (Num 0) = NaN"
    by (rule wrapAround_zero_size)
next
  assume h: "suggestions s = Some els \<and> els \<noteq> []"
  then have pos: "0 < int (length els)" by simp
  have w: "wrapAround (Num idx) (Num (int (length els))) = Num (idx mod int (length els))"
    by (rule wrapAround_pos [OF pos])
  have r: "0 \<le> idx mod int (length els)" "idx mod int (length els) < int (length els)"
    using pos by simp_all
  show "\<exists>s'. setSelectedItem (Num idx) scroll s = Inr s'
           \<and> wrap_sizes (trace s') = wrap_sizes (trace s) @ [Num (int (length els))]
           \<and> 0 < int (length els)"
    using h r
    by (cases scroll)
       (simp_all add: setSelectedItem_def Let_def emit_def w wrap_sizes_append)
qed

text \<open>
  C2 as stated (the index wrap is never invoked with size 0) fails on the first
  \<open>close()\<close> of a new widget: the trace holds one call of \<open>wrapAround\<close>, of size 0.
\<close>

theorem wrapAround_size_zero_counterexample:
  "map_sum id (\<lambda>s. wrap_sizes (trace s))
     (close renderSuggestion (new_widget [] [])) = Inr [Num 0]"
  by (simp add: close_eq new_widget_def)

theorem wrapAround_sizes_witness:
  "suggestions ((new_widget [] [] :: (abstract_file, string) widget)
      \<lparr>suggestions := Some [\<lparr>el_id = 0, content = ''a'', is_selected = True\<rparr>],
       selectedItem := Some (Num 0)\<rparr>)
     = Some [\<lparr>el_id = 0, content = ''a'', is_selected = True\<rparr>]
   \<and> (\<exists>s'. setSelectedItem (Num 7) True
               ((new_widget [] [] :: (abstract_file, string) widget)
                  \<lparr>suggestions := Some [\<lparr>el_id = 0, content = ''a'', is_selected = True\<rparr>],
                   selectedItem := Some (Num 0)\<rparr>) = Inr s'
          \<and> wrap_sizes (trace s') = [Num 1])"
  (is "suggestions ?s = Some ?els \<and> ?called")
proof -
  have h: "suggestions ?s = Some ?els \<and> ?els \<noteq> []" by simp
  have t: "wrap_sizes (trace ?s) @ [Num (int (length ?els))] = [Num 1]"
    by (simp add: new_widget_def)
  note inst = wrapAround_sizes [of renderSuggestion "[]" ?s ?els 7 True]
  from inst h have "\<exists>s'. setSelectedItem (Num 7) True ?s = Inr s'
      \<and> wrap_sizes (trace s') = wrap_sizes (trace ?s) @ [Num (int (length ?els))]"
    by blast
  then have ?called by (simp only: t)
  with h show ?thesis by blast
qed

text \<open>
  C7. On an input or focus event the binding layer asks the source for the candidates
  of the current text. An absent result closes the panel, and so does an empty list;
  closing always succeeds and leaves the panel detached with no elements. A non-empty
  list is handed to the list controller and the panel is opened: attached, with a newly
  created positioning instance.
\<close>

theorem onInputChanged_transitions:
  "(get (inputEl_value s) = None \<longrightarrow>
      onInputChanged get render s = close render s)
   \<and> (get (inputEl_value s) = Some [] \<longrightarrow>
      onInputChanged get render s = close render s)
   \<and> (\<exists>c. close render s = Inr c \<and> panelState c = Closed \<and> suggestions c = Some [])
   \<and> (get (inputEl_value s) = Some items \<and> items \<noteq> [] \<longrightarrow>
      (\<exists>s1. setSuggestions render items s = Inr s1
         \<and> onInputChanged get render s = Inr (open_panel s1)
         \<and> cur_values (open_panel s1) = Some items
         \<and> panelState (open_panel s1) = Open
         \<and> popper (open_panel s1) = Some False
         \<and> trace (open_panel s1) = trace s1 @ [PushScopeCall, CreatePopperCall]))"
proof (intro conjI impI)
  assume "get (inputEl_value s) = None"
  then show "onInputChanged get render s = close render s"
    by (simp add: onInputChanged_def)
next
  assume "get (inputEl_value s) = Some []"
  then show "onInputChanged get render s = close render s"
    by (simp add: onInputChanged_def)
next
  from close_total [of render s]
  show "\<exists>c. close render s = Inr c \<and> panelState c = Closed \<and> suggestions c = Some []"
    by blast
next
  assume h: "get (inputEl_value s) = Some items \<and> items \<noteq> []"
  then show "\<exists>s1. setSuggestions render items s = Inr s1
         \<and> onInputChanged get render s = Inr (open_panel s1)
         \<and> cur_values (open_panel s1) = Some items
         \<and> panelState (open_panel s1) = Open
         \<and> popper (open_panel s1) = Some False
         \<and> trace (open_panel s1) = trace s1 @ [PushScopeCall, CreatePopperCall]"
    by (simp add: onInputChanged_def setSuggestions_eq open_panel_def emit_def panelState_def)
qed

theorem onInputChanged_transitions_witness:
  "onInputChanged (\<lambda>inputStr. None) renderSuggestion (new_widget ''zzz'' [])
     = close renderSuggestion (new_widget ''zzz'' [])
   \<and> onInputChanged (\<lambda>inputStr. Some []) renderSuggestion (new_widget ''zzz'' [])
     = close renderSuggestion (new_widget ''zzz'' [])
   \<and> (\<exists>s1. setSuggestions renderSuggestion [TFolder ''Journal''] (new_widget ''jo'' []) = Inr s1
         \<and> onInputChanged (\<lambda>inputStr. Some [TFolder ''Journal'']) renderSuggestion
              (new_widget ''jo'' []) = Inr (open_panel s1)
         \<and> panelState (open_panel s1) = Open)"
proof -
  note absent = onInputChanged_transitions
    [where get = "\<lambda>inputStr. None" and s = "new_widget ''zzz'' []"
       and render = renderSuggestion and items = "[]"]
  note empty = onInputChanged_transitions
    [where get = "\<lambda>inputStr. Some []" and s = "new_widget ''zzz'' []"
       and render = renderSuggestion and items = "[]"]
  note some = onInputChanged_transitions
    [where get = "\<lambda>inputStr. Some [TFolder ''Journal'']" and s = "new_widget ''jo'' []"
       and render = renderSuggestion and items = "[TFolder ''Journal'']"]
  have h: "Some [TFolder ''Journal''] = Some [TFolder ''Journal'']
             \<and> [TFolder ''Journal''] \<noteq> []"
    by simp
  from absent have a: "onInputChanged (\<lambda>inputStr. None) renderSuggestion (new_widget ''zzz'' [])
     = close renderSuggestion (new_widget ''zzz'' [])"
    by blast
  from empty have b: "onInputChanged (\<lambda>inputStr. Some []) renderSuggestion (new_widget ''zzz'' [])
     = close renderSuggestion (new_widget ''zzz'' [])"
    by blast
  from some h have c: "\<exists>s1. setSuggestions renderSuggestion [TFolder ''Journal'']
                               (new_widget ''jo'' []) = Inr s1
         \<and> onInputChanged (\<lambda>inputStr. Some [TFolder ''Journal'']) renderSuggestion
              (new_widget ''jo'' []) = Inr (open_panel s1)
         \<and> panelState (open_panel s1) = Open"
    by blast
  from a b c show ?thesis by blast
qed

lemma js_get_in_range:
  assumes "0 \<le> i" and "i < int (length vs)"
  shows "js_get vs (Some (Num i)) = Some (vs ! nat i)"
  using assms by (simp add: js_get_def)

lemma js_get_empty: "js_get [] k = None"
  by (simp add: js_get_def js_index_zero)

text \<open>
  C9, as the code has it. On an empty set \<open>useSelectedItem\<close> returns the state as it
  is: the owner is not called and nothing is raised. On a non-empty set whose selected
  candidate is truthy (every folder object is), it calls the owner's
  \<open>selectSuggestion\<close> once, with that candidate and the originating event, and does
  nothing else.
\<close>

theorem useSelectedItem_truthy:
  "(cur_values s = Some [] \<longrightarrow> useSelectedItem truthy select ev s = Inr s)
   \<and> (cur_values s = Some vs \<and> selectedItem s = Some (Num i) \<and> 0 \<le> i
        \<and> i < int (length vs) \<and> truthy (vs ! nat i) \<longrightarrow>
      useSelectedItem truthy select ev s
        = select (vs ! nat i) ev (emit (SelectCall (vs ! nat i) ev) s))"
proof (intro conjI impI)
  assume "cur_values s = Some []"
  then show "useSelectedItem truthy select ev s = Inr s"
    by (simp add: useSelectedItem_def js_get_empty)
next
  assume h: "cur_values s = Some vs \<and> selectedItem s = Some (Num i) \<and> 0 \<le> i
        \<and> i < int (length vs) \<and> truthy (vs ! nat i)"
  then have "js_get vs (selectedItem s) = Some (vs ! nat i)"
    by (simp add: js_get_in_range)
  with h show "useSelectedItem truthy select ev s
        = select (vs ! nat i) ev (emit (SelectCall (vs ! nat i) ev) s)"
    by (simp add: useSelectedItem_def)
qed

theorem useSelectedItem_truthy_witness:
  "useSelectedItem truthy_folder (\<lambda>v ev s. Inr s) KeyboardEvent
     ((new_widget [] [] :: (abstract_file, string) widget)\<lparr>cur_values := Some []\<rparr>)
     = Inr ((new_widget [] [] :: (abstract_file, string) widget)\<lparr>cur_values := Some []\<rparr>)
   \<and> map_sum id (\<lambda>s. select_calls (trace s))
       (useSelectedItem truthy_folder (\<lambda>v ev s. Inr s) KeyboardEvent
          ((new_widget [] [] :: (abstract_file, string) widget)
             \<lparr>cur_values := Some [TFolder ''Journal'', TFolder ''Notes''],
              selectedItem := Some (Num 1)\<rparr>))
     = Inr [(TFolder ''Notes'', KeyboardEvent)]"
proof -
  note empty = useSelectedItem_truthy
    [where s = "(new_widget [] [] :: (abstract_file, string) widget)\<lparr>cur_values := Some []\<rparr>"
       and truthy = truthy_folder and select = "\<lambda>v ev s. Inr s" and ev = KeyboardEvent
       and vs = "[]" and i = 0]
  note chosen = useSelectedItem_truthy
    [where s = "(new_widget [] [] :: (abstract_file, string) widget)
                  \<lparr>cur_values := Some [TFolder ''Journal'', TFolder ''Notes''],
                   selectedItem := Some (Num 1)\<rparr>"
       and truthy = truthy_folder and select = "\<lambda>v ev s. Inr s" and ev = KeyboardEvent
       and vs = "[TFolder ''Journal'', TFolder ''Notes'']" and i = 1]
  from empty chosen show ?thesis
    by (simp add: truthy_folder_def emit_def new_widget_def)
qed

text \<open>
  C9 as stated (a non-empty set with a current selection always has the owner called)
  fails for the list holding the empty string: after \<open>setSuggestions\<close> the selection
  is element 0, and \<open>useSelectedItem\<close> returns the state unchanged, without a call of
  the owner in the trace.
\<close>

theorem useSelectedItem_falsy_counterexample:
  "setSuggestions (\<lambda>v. v) [''''] (new_widget [] [])
     = Inr \<lparr>inputEl_value = [], cur_values = Some [''''],
            suggestions = Some [\<lparr>el_id = 0, content = [], is_selected = True\<rparr>],
            selectedItem = Some (Num 0), popper = None, suggestEl_attached = False,
            keymap = [], next_el = 1,
            trace = [RenderCall [] 0, WrapAroundCall (Num 0) (Num 1)]\<rparr>
   \<and> useSelectedItem truthy_string (\<lambda>v ev s. Inr s) KeyboardEvent
       \<lparr>inputEl_value = [], cur_values = Some [''''],
        suggestions = Some [\<lparr>el_id = 0, content = [], is_selected = True\<rparr>],
        selectedItem = Some (Num 0), popper = None, suggestEl_attached = False,
        keymap = [], next_el = 1,
        trace = [RenderCall [] 0, WrapAroundCall (Num 0) (Num 1)]\<rparr>
     = Inr \<lparr>inputEl_value = [], cur_values = Some [''''],
            suggestions = Some [\<lparr>el_id = 0, content = [], is_selected = True\<rparr>],
            selectedItem = Some (Num 0), popper = None, suggestEl_attached = False,
            keymap = [], next_el = 1,
            trace = [RenderCall [] 0, WrapAroundCall (Num 0) (Num 1)]\<rparr>"
  by (simp add: setSuggestions_eq new_widget_def wrapAround_def set_class_def
        useSelectedItem_def js_get_def truthy_string_def)

text \<open>
  C10. \<open>useSelectedItem\<close> tests the truthiness of the selected value, not the
  emptiness of the set: on a non-empty list whose selected element exists and is falsy,
  it returns the state unchanged whatever the owner's \<open>selectSuggestion\<close> is, so the
  owner is not called.
\<close>

theorem useSelectedItem_guards_truthiness:
  assumes "cur_values s = Some vs" and "selectedItem s = Some (Num i)"
    and "0 \<le> i" and "i < int (length vs)" and "\<not> truthy (vs ! nat i)"
  shows "vs \<noteq> [] \<and> js_get vs (selectedItem s) = Some (vs ! nat i)
       \<and> useSelectedItem truthy select ev s = Inr s"
proof -
  from assms(3,4) have ne: "vs \<noteq> []" by auto
  from assms(2,3,4) have g: "js_get vs (selectedItem s) = Some (vs ! nat i)"
    by (simp add: js_get_in_range)
  with assms(1,5) have "useSelectedItem truthy select ev s = Inr s"
    by (simp add: useSelectedItem_def)
  with ne g show ?thesis by simp
qed

theorem useSelectedItem_guards_truthiness_witness:
  "\<not> truthy_string ([''a'', ''''] ! nat 1)
   \<and> useSelectedItem truthy_string (\<lambda>v ev s. Inl TypeError) MouseEvent
       ((new_widget [] [] :: (string, string) widget)
          \<lparr>cur_values := Some [''a'', ''''], selectedItem := Some (Num 1)\<rparr>)
     = Inr ((new_widget [] [] :: (string, string) widget)
          \<lparr>cur_values := Some [''a'', ''''], selectedItem := Some (Num 1)\<rparr>)"
  using useSelectedItem_guards_truthiness
    [where s = "(new_widget [] [] :: (string, string) widget)
                  \<lparr>cur_values := Some [''a'', ''''], selectedItem := Some (Num 1)\<rparr>"
       and vs = "[''a'', '''']" and i = 1 and truthy = truthy_string
       and select = "\<lambda>v ev s. Inl TypeError" and ev = MouseEvent]
  by (simp add: truthy_string_def)

lemma startsWith_iff: "startsWith str t \<longleftrightarrow> (\<exists>q. str = t @ q)"
  by (induction str t rule: startsWith.induct) auto

lemma contains_iff: "contains str t \<longleftrightarrow> (\<exists>p q. str = p @ t @ q)"
proof (induction str)
  case Nil
  show ?case by auto
next
  case (Cons a str)
  have "(\<exists>p q. a # str = p @ t @ q)
          \<longleftrightarrow> (\<exists>q. a # str = t @ q) \<or> (\<exists>p q. str = p @ t @ q)"
  proof
    assume "\<exists>p q. a # str = p @ t @ q"
    then obtain p q where pq: "a # str = p @ t @ q" by blast
    show "(\<exists>q. a # str = t @ q) \<or> (\<exists>p q. str = p @ t @ q)"
    proof (cases p)
      case Nil
      with pq show ?thesis by auto
    next
      case (Cons b p')
      with pq have "str = p' @ t @ q" by simp
      then show ?thesis by blast
    qed
  next
    assume "(\<exists>q. a # str = t @ q) \<or> (\<exists>p q. str = p @ t @ q)"
    then show "\<exists>p q. a # str = p @ t @ q"
    proof
      assume "\<exists>q. a # str = t @ q"
      then obtain q where "a # str = [] @ t @ q" by auto
      then show ?thesis by blast
    next
      assume "\<exists>p q. str = p @ t @ q"
      then obtain p q where "a # str = (a # p) @ t @ q" by auto
      then show ?thesis by blast
    qed
  qed
  with Cons.IH show ?case
    by (simp add: startsWith_iff del: startsWith.simps)
qed

lemma onInputChanged_total:
  "\<exists>s'. onInputChanged get render s = Inr s' \<and> inputEl_value s' = inputEl_value s"
proof (cases "get (inputEl_value s)")
  case None
  with close_total [of render s] show ?thesis
    by (auto simp: onInputChanged_def)
next
  case (Some sugg)
  show ?thesis
  proof (cases "sugg = []")
    case True
    with Some close_total [of render s] show ?thesis
      by (auto simp: onInputChanged_def)
  next
    case False
    with Some show ?thesis
      by (simp add: onInputChanged_def setSuggestions_eq open_panel_def emit_def)
  qed
qed

text \<open>
  C8. Whatever the built-in lower-casing does, the folder source returns the folders,
  and only folders, whose lower-cased path contains the lower-cased input as a
  substring, in the order of the vault's list, cut to the first 1000. Selecting a folder
  writes its path into the input, runs the input listener, and then closes the panel:
  the result is the closed panel with the path in the input. With the folders
  Projects/Work, Projects/Personal and Journal, lower-cased as they are by the built-in,
  the input \<open>pro\<close> yields the first two, shown with selection index 0.
\<close>

theorem folder_source:
  "getSuggestions lower files inputStr
     = take 1000 (filter (\<lambda>f. is_TFolder f
                    \<and> (\<exists>p q. lower (path f) = p @ lower inputStr @ q)) files)
   \<and> (\<exists>s1 s2. onInputChanged (\<lambda>t. Some (getSuggestions lower files t)) renderSuggestion
                  (s\<lparr>inputEl_value := path file\<rparr>) = Inr s1
          \<and> close renderSuggestion s1 = Inr s2
          \<and> selectSuggestion lower files file ev s = Inr s2
          \<and> inputEl_value s2 = path file
          \<and> panelState s2 = Closed \<and> suggestions s2 = Some [])
   \<and> (lower ''pro'' = ''pro'' \<and> lower ''Projects/Work'' = ''projects/work''
        \<and> lower ''Projects/Personal'' = ''projects/personal''
        \<and> lower ''Journal'' = ''journal'' \<longrightarrow>
        getSuggestions lower
          [TFolder ''Projects/Work'', TFolder ''Projects/Personal'', TFolder ''Journal''] ''pro''
          = [TFolder ''Projects/Work'', TFolder ''Projects/Personal'']
      \<and> (\<exists>s' els. handle lower
                      [TFolder ''Projects/Work'', TFolder ''Projects/Personal'', TFolder ''Journal'']
                      (InputEvent ''pro'') (new_widget [] []) = Inr s'
             \<and> cur_values s' = Some [TFolder ''Projects/Work'', TFolder ''Projects/Personal'']
             \<and> suggestions s' = Some els
             \<and> map content els = [''Projects/Work'', ''Projects/Personal'']
             \<and> map is_selected els = [True, False]
             \<and> selectedItem s' = Some (Num 0)
             \<and> panelState s' = Open))"
proof (intro conjI impI)
  show "getSuggestions lower files inputStr
     = take 1000 (filter (\<lambda>f. is_TFolder f
                    \<and> (\<exists>p q. lower (path f) = p @ lower inputStr @ q)) files)"
    by (simp add: getSuggestions_def contains_iff)
next
  let ?get = "\<lambda>t. Some (getSuggestions lower files t)"
  let ?s0 = "s\<lparr>inputEl_value := path file\<rparr>"
  from onInputChanged_total [of ?get renderSuggestion ?s0]
  obtain s1 where s1: "onInputChanged ?get renderSuggestion ?s0 = Inr s1"
    and v1: "inputEl_value s1 = path file"
    by auto
  from close_total [of renderSuggestion s1]
  obtain s2 where s2: "close renderSuggestion s1 = Inr s2"
    and c2: "panelState s2 = Closed" "suggestions s2 = Some []"
      "inputEl_value s2 = inputEl_value s1"
    by blast
  have "selectSuggestion lower files file ev s = Inr s2"
    by (simp add: selectSuggestion_def s1 s2)
  with s1 s2 v1 c2
  show "\<exists>s1 s2. onInputChanged ?get renderSuggestion ?s0 = Inr s1
          \<and> close renderSuggestion s1 = Inr s2
          \<and> selectSuggestion lower files file ev s = Inr s2
          \<and> inputEl_value s2 = path file
          \<and> panelState s2 = Closed \<and> suggestions s2 = Some []"
    by simp
next
  assume h: "lower ''pro'' = ''pro'' \<and> lower ''Projects/Work'' = ''projects/work''
        \<and> lower ''Projects/Personal'' = ''projects/personal''
        \<and> lower ''Journal'' = ''journal''"
  have c1: "contains ''projects/work'' ''pro''" by code_simp
  have c2: "contains ''projects/personal'' ''pro''" by code_simp
  have c3: "\<not> contains ''journal'' ''pro''" by code_simp
  from h c1 c2 c3
  show g: "getSuggestions lower
          [TFolder ''Projects/Work'', TFolder ''Projects/Personal'', TFolder ''Journal''] ''pro''
          = [TFolder ''Projects/Work'', TFolder ''Projects/Personal'']"
    by (simp add: getSuggestions_def del: contains.simps)
  show "\<exists>s' els. handle lower
                      [TFolder ''Projects/Work'', TFolder ''Projects/Personal'', TFolder ''Journal'']
                      (InputEvent ''pro'') (new_widget [] []) = Inr s'
             \<and> cur_values s' = Some [TFolder ''Projects/Work'', TFolder ''Projects/Personal'']
             \<and> suggestions s' = Some els
             \<and> map content els = [''Projects/Work'', ''Projects/Personal'']
             \<and> map is_selected els = [True, False]
             \<and> selectedItem s' = Some (Num 0)
             \<and> panelState s' = Open"
    by (simp add: onInputChanged_def g setSuggestions_eq open_panel_def emit_def
          panelState_def new_widget_def wrapAround_def set_class_def renderSuggestion_def)
qed

theorem folder_source_witness:
  "toLowerCaseASCII ''pro'' = ''pro''
   \<and> toLowerCaseASCII ''Projects/Work'' = ''projects/work''
   \<and> toLowerCaseASCII ''Projects/Personal'' = ''projects/personal''
   \<and> toLowerCaseASCII ''Journal'' = ''journal''
   \<and> getSuggestions toLowerCaseASCII
        [TFolder ''Projects/Work'', TFolder ''Projects/Personal'', TFolder ''Journal''] ''pro''
        = [TFolder ''Projects/Work'', TFolder ''Projects/Personal'']
   \<and> (\<exists>s'. handle toLowerCaseASCII
               [TFolder ''Projects/Work'', TFolder ''Projects/Personal'', TFolder ''Journal'']
               (InputEvent ''pro'') (new_widget [] []) = Inr s'
          \<and> selectedItem s' = Some (Num 0) \<and> panelState s' = Open)"
proof -
  have l1: "toLowerCaseASCII ''pro'' = ''pro''" by code_simp
  have l2: "toLowerCaseASCII ''Projects/Work'' = ''projects/work''" by code_simp
  have l3: "toLowerCaseASCII ''Projects/Personal'' = ''projects/personal''" by code_simp
  have l4: "toLowerCaseASCII ''Journal'' = ''journal''" by code_simp
  note inst = folder_source [where lower = toLowerCaseASCII]
  from inst l1 l2 l3 l4 show ?thesis by blast
qed

section \<open>The scope stack across open and close\<close>

text \<open>
  C1. The claim asks that every push of the widget's scope is matched by one pop, so
  that no scope stays on the host's stack once the panel is closed. The code pushes on
  every input event with candidates, also when the panel is open already, and pops once
  per \<open>close\<close>: after typing two characters and leaving the field the panel is
  closed, two pushes face one pop, and the widget's scope is still on the stack.
\<close>

theorem scope_leak_on_reopen:
  "map_sum id (\<lambda>s. (panelState s, keymap s,
                     count_list (trace s) PushScopeCall, count_list (trace s) PopScopeCall))
     (run toLowerCaseASCII [TFolder ''Projects/Work'', TFolder ''Projects/Personal'', TFolder ''Journal'']
        [InputEvent ''p'', InputEvent ''pr'', BlurEvent] (new_widget [] []))
   = Inr (Closed, [WidgetScope], 2, 1)"
  by code_simp

text \<open>
  The same happens on every selection: \<open>selectSuggestion\<close> triggers the input
  listener, which opens the panel once more, before it closes it once.
\<close>

lemma scope_leak_on_selection:
  "map_sum id (\<lambda>s. (inputEl_value s, panelState s, keymap s,
                     count_list (trace s) PushScopeCall, count_list (trace s) PopScopeCall))
     (run toLowerCaseASCII [TFolder ''Projects/Work'', TFolder ''Projects/Personal'', TFolder ''Journal'']
        [InputEvent ''pro'', ArrowDownKey False, EnterKey False] (new_widget [] []))
   = Inr (''Projects/Personal'', Closed, [WidgetScope], 2, 1)"
  by code_simp

text \<open>
  C6. \<open>close\<close> never raises (\<open>close_total\<close>), also on a widget that was never
  opened. But after the two pushes above, one \<open>close\<close> leaves the widget's scope
  on the stack and a second \<open>close\<close> removes it: the observable state after two
  calls is not the one after one call.
\<close>

theorem close_twice_differs:
  "map_sum id observable
     (run toLowerCaseASCII [TFolder ''Projects/Work'', TFolder ''Projects/Personal'', TFolder ''Journal'']
        [InputEvent ''p'', InputEvent ''pr'', BlurEvent] (new_widget [] []))
   = Inr ([WidgetScope], Some [], Some True, False)
   \<and> map_sum id observable
     (run toLowerCaseASCII [TFolder ''Projects/Work'', TFolder ''Projects/Personal'', TFolder ''Journal'']
        [InputEvent ''p'', InputEvent ''pr'', BlurEvent, BlurEvent] (new_widget [] []))
   = Inr ([], Some [], Some True, False)"
  by code_simp

text \<open>
  Where the scope is on the stack at most once, as it is when every push was matched,
  a second \<open>close\<close> changes nothing that can be observed.
\<close>

lemma remove1_twice:
  assumes "count_list xs x \<le> 1"
  shows "remove1 x (remove1 x xs) = remove1 x xs"
  using assms
proof (induction xs)
  case Nil
  show ?case by simp
next
  case (Cons y ys)
  show ?case
  proof (cases "x = y")
    case True
    with Cons.prems have "count_list ys x = 0" by simp
    then have "x \<notin> set ys" by (simp add: count_list_0_iff)
    with True show ?thesis by (simp add: remove1_idem)
  next
    case False
    with Cons show ?thesis by simp
  qed
qed

lemma close_idempotent_when_paired:
  assumes "count_list (keymap s) WidgetScope \<le> 1"
  shows "\<exists>a b. close render s = Inr a \<and> close render a = Inr b
           \<and> observable b = observable a"
  using remove1_twice [OF assms]
  by (cases "popper s") (simp_all add: close_eq observable_def popScope_def)

end
